theory Spec2Isabelle
  imports Main "HOL-Library.AList"
begin

section \<open>Characters and Python's string classes\<close>

text \<open>
  File names and artist names are Python \<open>str\<close> values. They are modelled as HOL
  strings over the ASCII repertoire: the classes \<open>\s\<close> and \<open>\w\<close> of the \<open>re\<close> module
  and the case mapping of \<open>str.title\<close> are those of Python on the code points below 128.
  A character from 128 upwards belongs to no class and has no case in this model.
\<close>

definition code :: "char \<Rightarrow> nat" where
  "code c = of_char c"

definition isupper :: "char \<Rightarrow> bool" where
  "isupper c = (65 \<le> code c \<and> code c \<le> 90)"

definition islower :: "char \<Rightarrow> bool" where
  "islower c = (97 \<le> code c \<and> code c \<le> 122)"

definition isdigit :: "char \<Rightarrow> bool" where
  "isdigit c = (48 \<le> code c \<and> code c \<le> 57)"

definition is_cased :: "char \<Rightarrow> bool" where
  "is_cased c = (isupper c \<or> islower c)"

definition lower :: "char \<Rightarrow> char" where
  "lower c = (if isupper c then char_of (code c + 32) else c)"

definition upper :: "char \<Rightarrow> char" where
  "upper c = (if islower c then char_of (code c - 32) else c)"

definition newline :: char where
  "newline = CHR 0x0A"

text \<open>\<open>\s\<close>: tab, line feed, vertical tab, form feed, carriage return, the four
  separators 0x1C..0x1F and the space.\<close>

definition is_space :: "char \<Rightarrow> bool" where
  "is_space c = ((9 \<le> code c \<and> code c \<le> 13) \<or> (28 \<le> code c \<and> code c \<le> 32))"

text \<open>\<open>\w\<close>: letters, digits and the underscore.\<close>

definition is_word :: "char \<Rightarrow> bool" where
  "is_word c = (isupper c \<or> islower c \<or> isdigit c \<or> c = CHR ''_'')"

subsection \<open>\<open>str.title\<close>\<close>

text \<open>
  \<open>str.title\<close> walks the string once: a cased character that follows a cased
  character is lowercased, any other character is titlecased (uppercased, on ASCII), and
  the flag for the next step is whether the character just read is cased.
\<close>

fun title_from :: "bool \<Rightarrow> string \<Rightarrow> string" where
  "title_from previous_is_cased [] = []"
| "title_from previous_is_cased (c # cs) =
     (if previous_is_cased then lower c else upper c) # title_from (is_cased c) cs"

definition title :: "string \<Rightarrow> string" where
  "title s = title_from False s"

section \<open>The fragment of Python's \<open>re\<close> that the program uses\<close>

text \<open>
  The three patterns of the program are sequences of one-character classes, each taken
  once (\<open>x\<close>, \<open>[x]{1}\<close>), one or more times greedily (\<open>x+\<close>) or one or more times
  lazily (\<open>x+?\<close>), with one capturing group and the anchors \<open>^\<close> and \<open>$\<close>. The matcher
  is the backtracking search of \<open>re\<close>: the alternatives of a repetition are tried in
  Python's order of preference and the first complete match is returned.
\<close>

datatype cclass = AnyChar | Space | Word | Lit char

datatype quant = Once | Greedy | Lazy

datatype tok = Atom cclass quant | GOpen | GClose | Bol | Eol

datatype regex = Regex (ignorecase: bool) (toks: "tok list")

text \<open>The dot matches everything but a line feed (no DOTALL flag is set).\<close>

fun in_class :: "bool \<Rightarrow> cclass \<Rightarrow> char \<Rightarrow> bool" where
  "in_class ic AnyChar x = (x \<noteq> newline)"
| "in_class ic Space x = is_space x"
| "in_class ic Word x = is_word x"
| "in_class ic (Lit c) x = (if ic then lower x = lower c else x = c)"

text \<open>The text of group 1 while the search runs.\<close>

datatype cap = Unset | Opened string | Closed string

fun push :: "char \<Rightarrow> cap \<Rightarrow> cap" where
  "push x (Opened a) = Opened (a @ [x])"
| "push x g = g"

fun close :: "cap \<Rightarrow> cap" where
  "close (Opened a) = Closed a"
| "close g = g"

text \<open>
  \<open>bt ic full ts pos g s\<close> matches the tokens \<open>ts\<close> against the rest \<open>s\<close> of the subject,
  \<open>pos\<close> characters of which are already consumed; \<open>full\<close> asks for the match to end at
  the end of the subject (\<open>re.fullmatch\<close>). \<open>$\<close> holds at the end of the subject and
  before a line feed that ends it.
\<close>

fun bt :: "bool \<Rightarrow> bool \<Rightarrow> tok list \<Rightarrow> nat \<Rightarrow> cap \<Rightarrow> string \<Rightarrow> cap option" where
  "bt ic full [] pos g s = (if full \<and> s \<noteq> [] then None else Some g)"
| "bt ic full (GOpen # ts) pos g s = bt ic full ts pos (Opened []) s"
| "bt ic full (GClose # ts) pos g s = bt ic full ts pos (close g) s"
| "bt ic full (Bol # ts) pos g s = (if pos = 0 then bt ic full ts pos g s else None)"
| "bt ic full (Eol # ts) pos g s =
     (if s = [] \<or> s = [newline] then bt ic full ts pos g s else None)"
| "bt ic full (Atom c q # ts) pos g [] = None"
| "bt ic full (Atom c Once # ts) pos g (x # xs) =
     (if in_class ic c x then bt ic full ts (Suc pos) (push x g) xs else None)"
| "bt ic full (Atom c Greedy # ts) pos g (x # xs) =
     (if in_class ic c x
      then (case bt ic full (Atom c Greedy # ts) (Suc pos) (push x g) xs of
              Some m \<Rightarrow> Some m
            | None \<Rightarrow> bt ic full ts (Suc pos) (push x g) xs)
      else None)"
| "bt ic full (Atom c Lazy # ts) pos g (x # xs) =
     (if in_class ic c x
      then (case bt ic full ts (Suc pos) (push x g) xs of
              Some m \<Rightarrow> Some m
            | None \<Rightarrow> bt ic full (Atom c Lazy # ts) (Suc pos) (push x g) xs)
      else None)"

definition re_match :: "regex \<Rightarrow> string \<Rightarrow> cap option" where
  "re_match r s = bt (ignorecase r) False (toks r) 0 Unset s"

definition re_fullmatch :: "regex \<Rightarrow> string \<Rightarrow> cap option" where
  "re_fullmatch r s = bt (ignorecase r) True (toks r) 0 Unset s"

text \<open>\<open>match.group(1)\<close>. Each pattern below closes its group on every path to a
  match, so the group is never unset in a match object of this program.\<close>

fun group1 :: "cap \<Rightarrow> string" where
  "group1 (Closed a) = a"
| "group1 (Opened a) = a"
| "group1 Unset = []"

section \<open>Classification of a file name\<close>

text \<open>\<^verbatim>\<open>(.+)\s-\s.+[.]{1}\w+$\<close>\<close>

definition tablature_regex :: regex where
  "tablature_regex = Regex False
     [GOpen, Atom AnyChar Greedy, GClose, Atom Space Once, Atom (Lit CHR ''-'') Once,
      Atom Space Once, Atom AnyChar Greedy, Atom (Lit CHR ''.'') Once, Atom Word Greedy, Eol]"

text \<open>\<^verbatim>\<open>(.+?)\s-\s\<close>\<close>

definition artist_regex :: regex where
  "artist_regex = Regex False
     [GOpen, Atom AnyChar Lazy, GClose, Atom Space Once, Atom (Lit CHR ''-'') Once,
      Atom Space Once]"

text \<open>\<^verbatim>\<open>(?i)^the\s+(.+)\<close>\<close>

definition the_regex :: regex where
  "the_regex = Regex True
     [Bol, Atom (Lit CHR ''t'') Once, Atom (Lit CHR ''h'') Once, Atom (Lit CHR ''e'') Once,
      Atom Space Greedy, GOpen, Atom AnyChar Greedy, GClose]"

datatype errno = EEXIST | ENOENT | ENOTDIR | EISDIR | EACCES | EINVAL

datatype error = SystemExit nat | ValueError | OSError errno

definition reformat_artist :: "string \<Rightarrow> string" where
  "reformat_artist name =
     (case re_match the_regex name of
        Some m \<Rightarrow> title (group1 m) @ '', The''
      | None \<Rightarrow> title name)"

definition get_artist :: "string \<Rightarrow> error + string" where
  "get_artist filename =
     (case re_match artist_regex filename of
        None \<Rightarrow> Inl ValueError
      | Some m \<Rightarrow> Inr (reformat_artist (group1 m)))"

section \<open>Paths\<close>

text \<open>
  A \<open>pathlib\<close> path is taken as \<open>pathlib\<close> parses it: whether it is anchored at the
  root, and its components. Two paths are equal when both agree; the double-slash root
  that POSIX leaves to the implementation is not distinguished from the root.
\<close>

datatype path = Path (absolute: bool) (parts: "string list")

definition name :: "path \<Rightarrow> string" where
  "name p = (if parts p = [] then [] else last (parts p))"

definition parent :: "path \<Rightarrow> path" where
  "parent p = Path (absolute p) (butlast (parts p))"

text \<open>\<open>p.parents\<close>: the proper ancestors of \<open>p\<close>, nearest first.\<close>

definition parents :: "path \<Rightarrow> path list" where
  "parents p = map (\<lambda>k. Path (absolute p) (take k (parts p))) (rev [0..<length (parts p)])"

text \<open>\<open>str.split('/')\<close>\<close>

fun split_slash :: "string \<Rightarrow> string list" where
  "split_slash [] = [[]]"
| "split_slash (c # cs) =
     (if c = CHR ''/'' then [] # split_slash cs
      else (case split_slash cs of w # ws \<Rightarrow> (c # w) # ws | [] \<Rightarrow> [[c]]))"

text \<open>The components of a path string: empty components and \<open>.\<close> are dropped.\<close>

definition parse_parts :: "string \<Rightarrow> string list" where
  "parse_parts s = filter (\<lambda>x. x \<noteq> [] \<and> x \<noteq> ''.'') (split_slash s)"

definition joinpath :: "path \<Rightarrow> string \<Rightarrow> path" where
  "joinpath p s =
     (case s of
        c # _ \<Rightarrow> if c = CHR ''/'' then Path True (parse_parts s)
                 else Path (absolute p) (parts p @ parse_parts s)
      | [] \<Rightarrow> p)"

text \<open>\<open>name.rfind('.')\<close>\<close>

definition rfind_dot :: "string \<Rightarrow> nat option" where
  "rfind_dot n =
     (if CHR ''.'' \<in> set n
      then Some (length n - 1 - length (takeWhile (\<lambda>x. x \<noteq> CHR ''.'') (rev n)))
      else None)"

definition suffix :: "string \<Rightarrow> string" where
  "suffix n =
     (case rfind_dot n of
        Some i \<Rightarrow> if 0 < i \<and> i < length n - 1 then drop i n else []
      | None \<Rightarrow> [])"

definition stem :: "string \<Rightarrow> string" where
  "stem n =
     (case rfind_dot n of
        Some i \<Rightarrow> if 0 < i \<and> i < length n - 1 then take i n else n
      | None \<Rightarrow> n)"

section \<open>The clock\<close>

record datetime =
  year :: nat
  month :: nat
  day :: nat
  hour :: nat
  minute :: nat
  second :: nat

definition digit :: "nat \<Rightarrow> char" where
  "digit d = char_of (48 + d)"

fun dec :: "nat \<Rightarrow> string" where
  "dec n = (if n < 10 then [digit n] else dec (n div 10) @ [digit (n mod 10)])"

declare dec.simps [simp del]

definition zfill :: "nat \<Rightarrow> string \<Rightarrow> string" where
  "zfill k s = replicate (k - length s) CHR ''0'' @ s"

text \<open>\<^verbatim>\<open>strftime("_%d%m%Y_%H%M%S")\<close>: two digits for every field but the year, which
  has four.\<close>

definition strftime :: "datetime \<Rightarrow> string" where
  "strftime t =
     ''_'' @ zfill 2 (dec (day t)) @ zfill 2 (dec (month t)) @ zfill 4 (dec (year t)) @
     ''_'' @ zfill 2 (dec (hour t)) @ zfill 2 (dec (minute t)) @ zfill 2 (dec (second t))"

section \<open>The file system\<close>

text \<open>
  The file system is an association list from paths to nodes, in the order in which a
  directory listing returns them; \<open>readonly\<close> lists the directories in which no entry
  may be created or removed. A path without components (the root, or the working
  directory) is a directory that always exists. Symbolic links and the resolution of
  \<open>..\<close> are outside the model. \<open>events\<close> is the log, one entry for each logging call.
  An operation that raises returns \<open>Inl\<close> with the exception and the world it leaves.
\<close>

datatype node = File string | Dir

datatype event =
    Skipped string
  | Collision string string
  | Moved string path
  | MoveFailed string path error
  | Aborted
  | Complete

record world =
  fs :: "(path \<times> node) list"
  readonly :: "path list"
  events :: "event list"

type_synonym 'a result = "(error \<times> world) + 'a"

definition lookup :: "world \<Rightarrow> path \<Rightarrow> node option" where
  "lookup w p = (if parts p = [] then Some Dir else map_of (fs w) p)"

definition path_exists :: "world \<Rightarrow> path \<Rightarrow> bool" where
  "path_exists w p = (lookup w p \<noteq> None)"

definition is_dir :: "world \<Rightarrow> path \<Rightarrow> bool" where
  "is_dir w p = (lookup w p = Some Dir)"

definition is_file :: "world \<Rightarrow> path \<Rightarrow> bool" where
  "is_file w p = (case lookup w p of Some (File c) \<Rightarrow> True | _ \<Rightarrow> False)"

definition log :: "event \<Rightarrow> world \<Rightarrow> world" where
  "log e w = w\<lparr>events := events w @ [e]\<rparr>"

text \<open>\<open>os.mkdir\<close>\<close>

definition os_mkdir :: "path \<Rightarrow> world \<Rightarrow> world result" where
  "os_mkdir p w =
     (if path_exists w p then Inl (OSError EEXIST, w)
      else (case lookup w (parent p) of
              None \<Rightarrow> Inl (OSError ENOENT, w)
            | Some (File c) \<Rightarrow> Inl (OSError ENOTDIR, w)
            | Some Dir \<Rightarrow>
                if parent p \<in> set (readonly w) then Inl (OSError EACCES, w)
                else Inr (w\<lparr>fs := fs w @ [(p, Dir)]\<rparr>)))"

text \<open>
  \<open>Path.mkdir(parents=False, exist_ok=True)\<close>: an \<open>OSError\<close> other than a missing
  parent is swallowed when the path is a directory.
\<close>

definition mkdir_leaf :: "path \<Rightarrow> world \<Rightarrow> world result" where
  "mkdir_leaf p w =
     (case os_mkdir p w of
        Inr w' \<Rightarrow> Inr w'
      | Inl (e, w') \<Rightarrow> if e \<noteq> OSError ENOENT \<and> is_dir w' p then Inr w' else Inl (e, w'))"

text \<open>
  \<open>Path.mkdir(parents=True, exist_ok=True)\<close>: when the parent is missing it is made
  first, by the same call, and the directory itself is then made without \<open>parents\<close>.
\<close>

function mkdir :: "path \<Rightarrow> world \<Rightarrow> world result" where
  "mkdir p w =
     (case os_mkdir p w of
        Inr w' \<Rightarrow> Inr w'
      | Inl (e, w') \<Rightarrow>
          if e = OSError ENOENT
          then (if parent p = p then Inl (e, w')
                else (case mkdir (parent p) w' of
                        Inl (e', w'') \<Rightarrow> Inl (e', w'')
                      | Inr w'' \<Rightarrow> mkdir_leaf p w''))
          else if is_dir w' p then Inr w' else Inl (e, w'))"
  by pat_completeness auto
termination
proof (relation "measure (\<lambda>(p, w). length (parts p))")
  show "wf (measure (\<lambda>(p, w). length (parts p)))" by simp
next
  fix p :: path and w w' :: world
  assume "parent p \<noteq> p"
  then have "parts p \<noteq> []" by (cases p) (auto simp: parent_def)
  then show "((parent p, w'), (p, w)) \<in> measure (\<lambda>(p, w). length (parts p))"
    by (simp add: parent_def)
qed

declare mkdir.simps [simp del]

text \<open>
  \<open>Path.rename\<close>, that is \<open>os.rename\<close> on POSIX, for a source that is a regular file
  or missing: a regular file at the target is replaced silently, a directory at the
  target refuses the move. A directory as source does not arise (\<open>organize_tabs\<close> hands
  on only what \<open>is_file\<close> accepted) and is refused in this model.
\<close>

definition rename :: "path \<Rightarrow> path \<Rightarrow> world \<Rightarrow> world result" where
  "rename src tgt w =
     (case lookup w src of
        None \<Rightarrow> Inl (OSError ENOENT, w)
      | Some Dir \<Rightarrow> Inl (OSError EINVAL, w)
      | Some (File c) \<Rightarrow>
          (case lookup w (parent tgt) of
             None \<Rightarrow> Inl (OSError ENOENT, w)
           | Some (File c') \<Rightarrow> Inl (OSError ENOTDIR, w)
           | Some Dir \<Rightarrow>
               if src = tgt then Inr w
               else if parent src \<in> set (readonly w) \<or> parent tgt \<in> set (readonly w)
               then Inl (OSError EACCES, w)
               else if is_dir w tgt then Inl (OSError EISDIR, w)
               else Inr (w\<lparr>fs := AList.update tgt (File c) (AList.delete src (fs w))\<rparr>)))"

text \<open>\<open>Path.iterdir\<close>: the entries directly inside \<open>d\<close>, in listing order.\<close>

definition iterdir :: "world \<Rightarrow> path \<Rightarrow> (path list) result" where
  "iterdir w d =
     (case lookup w d of
        None \<Rightarrow> Inl (OSError ENOENT, w)
      | Some (File c) \<Rightarrow> Inl (OSError ENOTDIR, w)
      | Some Dir \<Rightarrow> Inr (filter (\<lambda>p. parts p \<noteq> [] \<and> parent p = d) (map fst (fs w))))"

section \<open>Placing a file\<close>

definition create_folder :: "string \<Rightarrow> path \<Rightarrow> world \<Rightarrow> (path \<times> world) result" where
  "create_folder artist_name output_dir w =
     (let artist_dir = joinpath output_dir artist_name
      in case mkdir artist_dir w of
           Inl (e, w') \<Rightarrow> Inl (e, w')
         | Inr w' \<Rightarrow> Inr (artist_dir, w'))"

text \<open>\<open>now\<close> is what \<open>datetime.now()\<close> returns if it is called. The \<open>try\<close> around
  \<open>rename\<close> catches every exception, so \<open>move_file\<close> always returns.\<close>

definition move_file :: "datetime \<Rightarrow> path \<Rightarrow> path \<Rightarrow> world \<Rightarrow> world" where
  "move_file now filepath output_dir w =
     (let target_path = joinpath output_dir (name filepath);
          collides = path_exists w target_path;
          target_path' =
            (if collides
             then joinpath output_dir (stem (name filepath) @ strftime now @ suffix (name filepath))
             else target_path);
          w1 = (if collides then log (Collision (name filepath) (name target_path')) w else w)
      in case rename filepath target_path' w1 of
           Inr w2 \<Rightarrow> log (Moved (name filepath) (parent target_path')) w2
         | Inl (e, w2) \<Rightarrow> log (MoveFailed (name filepath) (parent target_path') e) w2)"

definition store_file :: "datetime \<Rightarrow> path \<Rightarrow> path \<Rightarrow> path \<Rightarrow> world \<Rightarrow> world result" where
  "store_file now filepath input_dir output_dir w =
     (case re_fullmatch tablature_regex (name filepath) of
        None \<Rightarrow> Inr (log (Skipped (name filepath)) w)
      | Some m \<Rightarrow>
          (case get_artist (name filepath) of
             Inl e \<Rightarrow> Inl (e, w)
           | Inr artist \<Rightarrow>
               (case create_folder artist output_dir w of
                  Inl (e, w') \<Rightarrow> Inl (e, w')
                | Inr (artist_dir, w') \<Rightarrow> Inr (move_file now filepath artist_dir w'))))"

section \<open>The run\<close>

text \<open>
  The \<open>for\<close> loop over \<open>only_files\<close>. An exception that \<open>store_file\<close> lets through ends
  the loop. \<open>clock i\<close> is the reading of the clock while the file at position \<open>i\<close> of
  the list is handled.
\<close>

fun store_files ::
  "(nat \<Rightarrow> datetime) \<Rightarrow> nat \<Rightarrow> path list \<Rightarrow> path \<Rightarrow> path \<Rightarrow> world \<Rightarrow> world result" where
  "store_files clock i [] input_dir output_dir w = Inr w"
| "store_files clock i (file # files) input_dir output_dir w =
     (case store_file (clock i) file input_dir output_dir w of
        Inl (e, w') \<Rightarrow> Inl (e, w')
      | Inr w' \<Rightarrow> store_files clock (Suc i) files input_dir output_dir w')"

definition only_files :: "world \<Rightarrow> path \<Rightarrow> (path list) result" where
  "only_files w input_dir =
     (case iterdir w input_dir of
        Inl (e, w') \<Rightarrow> Inl (e, w')
      | Inr entries \<Rightarrow> Inr (filter (is_file w) entries))"

definition organize_tabs :: "(nat \<Rightarrow> datetime) \<Rightarrow> path \<Rightarrow> path \<Rightarrow> world \<Rightarrow> world result" where
  "organize_tabs clock input_dir output_dir w =
     (if output_dir \<in> set (parents input_dir)
      then Inl (SystemExit 1, log Aborted w)
      else (case only_files w input_dir of
              Inl (e, w') \<Rightarrow> Inl (e, w')
            | Inr files \<Rightarrow>
                (case store_files clock 0 files input_dir output_dir w of
                   Inl (e, w') \<Rightarrow> Inl (e, w')
                 | Inr w' \<Rightarrow> Inr (log Complete w'))))"

text \<open>
  The command line: \<open>--input\<close> must be an existing directory and \<open>--output\<close> must not
  be an existing file, or \<open>click\<close> ends the process with status 2. A run that returns
  ends with status 0, \<open>sys.exit(n)\<close> with status \<open>n\<close>, and an exception that nothing
  catches with status 1.
\<close>

definition exit_status :: "world result \<Rightarrow> nat" where
  "exit_status r =
     (case r of Inr w \<Rightarrow> 0 | Inl (SystemExit n, w) \<Rightarrow> n | Inl (e, w) \<Rightarrow> 1)"

definition final_world :: "world result \<Rightarrow> world" where
  "final_world r = (case r of Inr w \<Rightarrow> w | Inl (e, w) \<Rightarrow> w)"

definition main :: "(nat \<Rightarrow> datetime) \<Rightarrow> path \<Rightarrow> path \<Rightarrow> world \<Rightarrow> nat \<times> world" where
  "main clock input output w =
     (if is_dir w input \<and> \<not> is_file w output
      then (let r = organize_tabs clock input output w in (exit_status r, final_world r))
      else (2, w))"

section \<open>What the patterns and the placement are specified to do\<close>

text \<open>
  The declarative reading of a token sequence: \<open>fits ic ts pos p r\<close> holds when the
  tokens \<open>ts\<close>, started \<open>pos\<close> characters into the subject, can consume exactly \<open>p\<close>
  with \<open>r\<close> left over. \<open>accepts\<close> is the existence of such a split of the subject.
\<close>

fun fits :: "bool \<Rightarrow> tok list \<Rightarrow> nat \<Rightarrow> string \<Rightarrow> string \<Rightarrow> bool" where
  "fits ic [] pos p r = (p = [])"
| "fits ic (GOpen # ts) pos p r = fits ic ts pos p r"
| "fits ic (GClose # ts) pos p r = fits ic ts pos p r"
| "fits ic (Bol # ts) pos p r = (pos = 0 \<and> fits ic ts pos p r)"
| "fits ic (Eol # ts) pos p r = ((p @ r = [] \<or> p @ r = [newline]) \<and> fits ic ts pos p r)"
| "fits ic (Atom c Once # ts) pos p r =
     (\<exists>x p'. p = x # p' \<and> in_class ic c x \<and> fits ic ts (Suc pos) p' r)"
| "fits ic (Atom c q # ts) pos p r =
     (\<exists>u p'. p = u @ p' \<and> u \<noteq> [] \<and> list_all (in_class ic c) u \<and>
        fits ic ts (pos + length u) p' r)"

definition accepts :: "bool \<Rightarrow> bool \<Rightarrow> tok list \<Rightarrow> nat \<Rightarrow> string \<Rightarrow> bool" where
  "accepts ic full ts pos s = (\<exists>p r. s = p @ r \<and> fits ic ts pos p r \<and> (full \<longrightarrow> r = []))"

text \<open>The string starts with a separator: a whitespace character, a hyphen, a
  whitespace character.\<close>

fun sep_at :: "string \<Rightarrow> bool" where
  "sep_at (a # b # c # r) = (is_space a \<and> b = CHR ''-'' \<and> is_space c)"
| "sep_at r = False"

text \<open>
  The shape that \<open>tablature_regex\<close> accepts: a non-empty run without a line feed, a
  separator, another such run, a dot, and one or more word characters to the end.
\<close>

definition tab_shape :: "string \<Rightarrow> bool" where
  "tab_shape s =
     (\<exists>a w1 w2 b e. s = a @ w1 # CHR ''-'' # w2 # b @ CHR ''.'' # e \<and>
        a \<noteq> [] \<and> newline \<notin> set a \<and> is_space w1 \<and> is_space w2 \<and>
        b \<noteq> [] \<and> newline \<notin> set b \<and> e \<noteq> [] \<and> list_all is_word e)"


text \<open>
  The shortest non-empty leading run without a line feed that a separator follows.
\<close>

fun first_segment :: "string \<Rightarrow> string option" where
  "first_segment [] = None"
| "first_segment (x # xs) =
     (if x = newline then None
      else if sep_at xs then Some [x]
      else map_option ((#) x) (first_segment xs))"






text \<open>A file name as a directory entry has it: not empty, not \<open>.\<close>, no slash.\<close>

definition valid_name :: "string \<Rightarrow> bool" where
  "valid_name n = (n \<noteq> [] \<and> n \<noteq> ''.'' \<and> CHR ''/'' \<notin> set n)"

text \<open>A reading of the wall clock: a four-digit year and fields in their ranges.\<close>

definition valid_time :: "datetime \<Rightarrow> bool" where
  "valid_time t =
     (1000 \<le> year t \<and> year t \<le> 9999 \<and> 1 \<le> month t \<and> month t \<le> 12 \<and>
      1 \<le> day t \<and> day t \<le> 31 \<and> hour t < 24 \<and> minute t < 60 \<and> second t < 60)"



text \<open>The second world keeps the log, the permissions and every entry of the first.\<close>

definition grows :: "world \<Rightarrow> world \<Rightarrow> bool" where
  "grows w w' =
     (events w' = events w \<and> readonly w' = readonly w \<and>
      (\<forall>q v. lookup w q = Some v \<longrightarrow> lookup w' q = Some v))"

section \<open>An example run\<close>

text \<open>A reading of the clock, and an input directory with three files.\<close>

definition t0 :: datetime where
  "t0 = \<lparr>year = 2024, month = 1, day = 2, hour = 3, minute = 4, second = 5\<rparr>"

definition w0 :: world where
  "w0 = \<lparr>fs =
          [(Path True [''in''], Dir),
           (Path True [''in'', ''Metallica - Enter Sandman.gp5''], File ''riff''),
           (Path True [''in'', ''the who - baba oriley.txt''], File ''organ''),
           (Path True [''in'', ''readme.txt''], File ''notes'')],
        readonly = [], events = []\<rparr>"

text \<open>
  An artist folder that already holds \<open>''A - x.txt''\<close>, an empty artist folder, and
  two input directories that each hold a file named \<open>''A - x.txt''\<close>.
\<close>

definition w_twins :: world where
  "w_twins = \<lparr>fs =
          [(Path True [''out''], Dir),
           (Path True [''out'', ''A''], Dir),
           (Path True [''out'', ''A'', ''A - x.txt''], File ''zero''),
           (Path True [''out'', ''B''], Dir),
           (Path True [''in1''], Dir),
           (Path True [''in1'', ''A - x.txt''], File ''one''),
           (Path True [''in2''], Dir),
           (Path True [''in2'', ''A - x.txt''], File ''two'')],
        readonly = [], events = []\<rparr>"


section \<open>Case mapping and \<open>title\<close>\<close>

lemma code_lower: "code (lower c) = (if isupper c then code c + 32 else code c)"
  by (auto simp: lower_def code_def isupper_def)

lemma code_upper: "code (upper c) = (if islower c then code c - 32 else code c)"
  by (auto simp: upper_def code_def islower_def)

lemma is_cased_lower [simp]: "is_cased (lower c) = is_cased c"
  by (auto simp: is_cased_def isupper_def islower_def code_lower)

lemma is_cased_upper [simp]: "is_cased (upper c) = is_cased c"
  by (auto simp: is_cased_def isupper_def islower_def code_upper)

lemma not_isupper_lower: "\<not> isupper (lower c)"
  by (auto simp: isupper_def code_lower)

lemma not_islower_upper: "\<not> islower (upper c)"
  by (auto simp: islower_def code_upper)

lemma lower_lower [simp]: "lower (lower c) = lower c"
  using not_isupper_lower [of c] by (simp add: lower_def [of "lower c"])

lemma upper_upper [simp]: "upper (upper c) = upper c"
  using not_islower_upper [of c] by (simp add: upper_def [of "upper c"])



lemma length_title_from [simp]: "length (title_from p s) = length s"
  by (induction s arbitrary: p) simp_all



section \<open>The matcher finds a match exactly when one exists\<close>

lemma fits_many:
  assumes "q \<noteq> Once"
  shows "fits ic (Atom c q # ts) pos p r \<longleftrightarrow>
     (\<exists>u p'. p = u @ p' \<and> u \<noteq> [] \<and> list_all (in_class ic c) u \<and>
        fits ic ts (pos + length u) p' r)"
  using assms by (cases q) simp_all

lemma fits_many_Nil: "q \<noteq> Once \<Longrightarrow> \<not> fits ic (Atom c q # ts) pos [] r"
  by (simp add: fits_many)

lemma fits_many_Cons:
  assumes q: "q \<noteq> Once"
  shows "fits ic (Atom c q # ts) pos (x # p) r \<longleftrightarrow>
     in_class ic c x \<and> (fits ic ts (Suc pos) p r \<or> fits ic (Atom c q # ts) (Suc pos) p r)"
  (is "?L \<longleftrightarrow> ?R")
proof
  assume ?L
  then obtain u p' where u: "x # p = u @ p'" "u \<noteq> []" "list_all (in_class ic c) u"
    "fits ic ts (pos + length u) p' r" unfolding fits_many [OF q] by blast
  then obtain u' where u': "u = x # u'" by (cases u) auto
  show ?R
  proof (cases u')
    case Nil
    with u u' show ?thesis by auto
  next
    case (Cons y ys)
    with u u' have "p = u' @ p' \<and> u' \<noteq> [] \<and> list_all (in_class ic c) u' \<and>
      fits ic ts (Suc pos + length u') p' r" by auto
    then have "fits ic (Atom c q # ts) (Suc pos) p r" unfolding fits_many [OF q] by blast
    with u u' show ?thesis by auto
  qed
next
  assume R: ?R
  then have x: "in_class ic c x" by simp
  from R consider "fits ic ts (Suc pos) p r" | "fits ic (Atom c q # ts) (Suc pos) p r" by auto
  then show ?L
  proof cases
    case 1
    then have "x # p = [x] @ p \<and> [x] \<noteq> [] \<and> list_all (in_class ic c) [x] \<and>
        fits ic ts (pos + length [x]) p r" using x by simp
    then show ?thesis unfolding fits_many [OF q] by blast
  next
    case 2
    then obtain u p' where u: "p = u @ p'" "u \<noteq> []" "list_all (in_class ic c) u"
      "fits ic ts (Suc pos + length u) p' r" unfolding fits_many [OF q] by blast
    then have "x # p = (x # u) @ p' \<and> x # u \<noteq> [] \<and> list_all (in_class ic c) (x # u) \<and>
        fits ic ts (pos + length (x # u)) p' r" using x by simp
    then show ?thesis unfolding fits_many [OF q] by blast
  qed
qed

lemma accepts_Nil [simp]: "accepts ic full [] pos s \<longleftrightarrow> (full \<longrightarrow> s = [])"
  by (auto simp: accepts_def)

lemma accepts_GOpen [simp]: "accepts ic full (GOpen # ts) pos s = accepts ic full ts pos s"
  by (simp add: accepts_def)

lemma accepts_GClose [simp]: "accepts ic full (GClose # ts) pos s = accepts ic full ts pos s"
  by (simp add: accepts_def)

lemma accepts_Bol [simp]:
  "accepts ic full (Bol # ts) pos s \<longleftrightarrow> pos = 0 \<and> accepts ic full ts pos s"
  by (auto simp: accepts_def)

lemma accepts_Eol [simp]:
  "accepts ic full (Eol # ts) pos s \<longleftrightarrow> (s = [] \<or> s = [newline]) \<and> accepts ic full ts pos s"
  by (auto simp: accepts_def)

lemma accepts_Atom_Nil [simp]: "\<not> accepts ic full (Atom c q # ts) pos []"
  by (cases q) (auto simp: accepts_def)

lemma accepts_Once_Cons [simp]:
  "accepts ic full (Atom c Once # ts) pos (x # xs) \<longleftrightarrow>
     in_class ic c x \<and> accepts ic full ts (Suc pos) xs"
  by (auto simp: accepts_def Cons_eq_append_conv)

lemma accepts_many_Cons:
  assumes q: "q \<noteq> Once"
  shows "accepts ic full (Atom c q # ts) pos (x # xs) \<longleftrightarrow>
     in_class ic c x \<and>
     (accepts ic full ts (Suc pos) xs \<or> accepts ic full (Atom c q # ts) (Suc pos) xs)"
  (is "?L \<longleftrightarrow> ?R")
proof
  assume ?L
  then obtain p r where pr: "x # xs = p @ r" "fits ic (Atom c q # ts) pos p r" "full \<longrightarrow> r = []"
    by (auto simp: accepts_def)
  with q obtain p' where p': "p = x # p'" by (cases p) (auto simp: fits_many_Nil)
  with pr show ?R using fits_many_Cons [OF q, of ic c ts pos x p' r]
    by (auto simp: accepts_def)
next
  assume R: ?R
  then have x: "in_class ic c x" by simp
  from R obtain p r where pr: "xs = p @ r" "full \<longrightarrow> r = []"
    "fits ic ts (Suc pos) p r \<or> fits ic (Atom c q # ts) (Suc pos) p r"
    by (auto simp: accepts_def)
  then have "fits ic (Atom c q # ts) pos (x # p) r"
    using fits_many_Cons [OF q, of ic c ts pos x p r] x by simp
  with pr show ?L unfolding accepts_def by (intro exI [of _ "x # p"] exI [of _ r]) simp
qed

lemma bt_accepts: "bt ic full ts pos g s \<noteq> None \<longleftrightarrow> accepts ic full ts pos s"
proof (induction ic full ts pos g s rule: bt.induct)
  case (8 ic full c ts pos g x xs)
  then show ?case by (auto simp: accepts_many_Cons split: option.splits)
next
  case (9 ic full c ts pos g x xs)
  then show ?case by (auto simp: accepts_many_Cons split: option.splits)
qed simp_all

section \<open>What the three patterns accept and capture\<close>

lemma fits_tablature: "fits False (toks tablature_regex) 0 s [] \<longleftrightarrow> tab_shape s"
  unfolding tablature_regex_def tab_shape_def
  apply (simp add: list_all_iff)
  apply (rule iffI)
   apply (elim exE conjE)
   apply simp
   apply blast
  apply (elim exE conjE)
  apply simp
  apply metis
  done

lemma fullmatch_tablature: "re_fullmatch tablature_regex s \<noteq> None \<longleftrightarrow> tab_shape s"
  unfolding re_fullmatch_def bt_accepts
  using fits_tablature [of s] by (auto simp: accepts_def tablature_regex_def)

lemma bt_separator:
  "bt False False [Atom Space Once, Atom (Lit CHR ''-'') Once, Atom Space Once] pos (Closed a) s =
     (if sep_at s then Some (Closed a) else None)"
  by (cases s rule: sep_at.cases) auto

lemma bt_lazy_segment:
  "bt False False
      [Atom AnyChar Lazy, GClose, Atom Space Once, Atom (Lit CHR ''-'') Once, Atom Space Once]
      pos (Opened a) s = map_option (\<lambda>u. Closed (a @ u)) (first_segment s)"
proof (induction s arbitrary: pos a)
  case Nil
  then show ?case by simp
next
  case (Cons x xs)
  show ?case
  proof (cases "x = newline")
    case True
    then show ?thesis by simp
  next
    case False
    then show ?thesis
      using Cons.IH [of "Suc pos" "a @ [x]"]
      by (simp add: bt_separator option.map_comp comp_def del: bt.simps(7))
  qed
qed

lemma match_artist: "re_match artist_regex s = map_option Closed (first_segment s)"
  unfolding re_match_def artist_regex_def
  using bt_lazy_segment [of 0 "[]" s] by simp



lemma first_segment_exists:
  "newline \<notin> set u \<Longrightarrow> u \<noteq> [] \<Longrightarrow> sep_at r \<Longrightarrow> first_segment (u @ r) \<noteq> None"
proof (induction u)
  case Nil
  then show ?case by simp
next
  case (Cons x u)
  then show ?case by (cases u) auto
qed

lemma tab_shape_segment: "tab_shape s \<Longrightarrow> first_segment s \<noteq> None"
proof -
  assume "tab_shape s"
  then obtain a w1 w2 b e where s: "s = a @ w1 # CHR ''-'' # w2 # b @ CHR ''.'' # e"
    "a \<noteq> []" "newline \<notin> set a" "is_space w1" "is_space w2"
    unfolding tab_shape_def by blast
  then have "sep_at (w1 # CHR ''-'' # w2 # b @ CHR ''.'' # e)" by simp
  with s show ?thesis using first_segment_exists by simp
qed

lemma get_artist_segment:
  "get_artist s =
     (case first_segment s of None \<Rightarrow> Inl ValueError | Some u \<Rightarrow> Inr (reformat_artist u))"
  by (simp add: get_artist_def match_artist split: option.splits)








section \<open>Paths, names and the time stamp\<close>

lemma split_slash_plain: "CHR ''/'' \<notin> set n \<Longrightarrow> split_slash n = [n]"
  by (induction n) auto

lemma parse_parts_valid: "valid_name n \<Longrightarrow> parse_parts n = [n]"
  by (simp add: valid_name_def parse_parts_def split_slash_plain)

lemma joinpath_valid:
  "valid_name n \<Longrightarrow> joinpath d n = Path (absolute d) (parts d @ [n])"
  by (cases n) (auto simp: joinpath_def parse_parts_valid, auto simp: valid_name_def)

lemma name_joinpath [simp]: "valid_name n \<Longrightarrow> name (joinpath d n) = n"
  by (simp add: joinpath_valid name_def)

lemma parent_joinpath [simp]: "valid_name n \<Longrightarrow> parent (joinpath d n) = d"
  by (simp add: joinpath_valid parent_def)

lemma parts_joinpath [simp]: "valid_name n \<Longrightarrow> parts (joinpath d n) \<noteq> []"
  by (simp add: joinpath_valid)

lemma joinpath_inject:
  "valid_name n \<Longrightarrow> valid_name n' \<Longrightarrow> joinpath d n = joinpath d n' \<longleftrightarrow> n = n'"
  by (simp add: joinpath_valid)

lemma stem_suffix: "stem n @ suffix n = n"
  by (simp add: stem_def suffix_def split: option.splits)

lemma set_stem: "set (stem n) \<subseteq> set n"
  by (auto simp: stem_def split: option.splits if_splits dest: in_set_takeD)

lemma set_suffix: "set (suffix n) \<subseteq> set n"
  by (auto simp: suffix_def split: option.splits if_splits dest: in_set_dropD)

lemma code_digit: "d < 10 \<Longrightarrow> code (digit d) = 48 + d"
  by (simp add: code_def digit_def)

lemma dec_digits: "c \<in> set (dec n) \<Longrightarrow> isdigit c"
proof (induction n rule: dec.induct)
  case (1 n)
  show ?case
  proof (cases "n < 10")
    case True
    with "1.prems" show ?thesis by (simp add: isdigit_def code_digit dec.simps [of n])
  next
    case False
    with "1.prems" "1.IH" show ?thesis
      by (auto simp: isdigit_def code_digit dec.simps [of n])
  qed
qed

lemma isdigit_zero: "isdigit CHR ''0''"
  by code_simp

lemma zfill_digits: "c \<in> set (zfill k (dec n)) \<Longrightarrow> isdigit c"
  by (auto simp: zfill_def isdigit_zero dest: dec_digits)

lemma strftime_chars: "c \<in> set (strftime t) \<Longrightarrow> c = CHR ''_'' \<or> isdigit c"
  by (auto simp: strftime_def dest: zfill_digits)

lemma not_isdigit_slash: "\<not> isdigit CHR ''/''"
  by code_simp

lemma strftime_no_slash: "CHR ''/'' \<notin> set (strftime t)"
  using strftime_chars [of "CHR ''/''" t] not_isdigit_slash by auto

lemma strftime_starts: "\<exists>r. strftime t = CHR ''_'' # r"
  by (simp add: strftime_def)

lemma stamped_valid:
  assumes "valid_name n"
  shows "valid_name (stem n @ strftime t @ suffix n)"
proof -
  obtain r where r: "strftime t = CHR ''_'' # r" using strftime_starts by blast
  have "CHR ''/'' \<notin> set (stem n)" "CHR ''/'' \<notin> set (suffix n)"
    using assms set_stem [of n] set_suffix [of n] by (auto simp: valid_name_def)
  moreover have mem: "CHR ''_'' \<in> set (stem n @ strftime t @ suffix n)" using r by simp
  have "stem n @ strftime t @ suffix n \<noteq> ''.''"
  proof
    assume e: "stem n @ strftime t @ suffix n = ''.''"
    from mem have "CHR ''_'' \<in> set ''.''" unfolding e .
    then show False by simp
  qed
  ultimately show ?thesis using strftime_no_slash [of t] r by (simp add: valid_name_def)
qed

lemma stamped_differs: "stem n @ strftime t @ suffix n \<noteq> n"
proof
  assume "stem n @ strftime t @ suffix n = n"
  then have "length (stem n @ strftime t @ suffix n) = length (stem n @ suffix n)"
    by (simp only: stem_suffix)
  then show False using strftime_starts [of t] by auto
qed

lemma dec_small: "n < 10 \<Longrightarrow> dec n = [digit n]"
  by (simp add: dec.simps)

lemma dec_two:
  assumes "10 \<le> n" "n < 100"
  shows "dec n = [digit (n div 10), digit (n mod 10)]"
proof -
  have "\<not> n < 10" "n div 10 < 10" using assms by arith+
  then show ?thesis by (simp add: dec.simps [of n] dec_small)
qed

lemma digit_zero: "digit 0 = CHR ''0''"
  by code_simp

lemma zfill2: "n < 100 \<Longrightarrow> zfill 2 (dec n) = [digit (n div 10), digit (n mod 10)]"
  by (cases "n < 10") (simp_all add: zfill_def dec_two digit_zero dec_small)

lemma dec_four:
  assumes "1000 \<le> n" "n < 10000"
  shows "dec n =
     [digit (n div 1000), digit (n div 100 mod 10), digit (n div 10 mod 10), digit (n mod 10)]"
proof -
  have r: "\<not> n < 10" "\<not> n div 10 < 10" "10 \<le> n div 100" "n div 100 < 100"
    using assms by arith+
  have d: "n div 10 div 10 = n div 100" "n div 100 div 10 = n div 1000"
    by (simp_all add: div_mult2_eq [symmetric])
  have a: "dec n = dec (n div 10) @ [digit (n mod 10)]"
    using r by (simp add: dec.simps [of n])
  have b: "dec (n div 10) = dec (n div 100) @ [digit (n div 10 mod 10)]"
    using r by (simp add: dec.simps [of "n div 10"] d)
  have c: "dec (n div 100) = [digit (n div 1000), digit (n div 100 mod 10)]"
    using dec_two [OF r(3,4)] by (simp add: d)
  show ?thesis by (simp add: a b c)
qed

lemma zfill4:
  "1000 \<le> n \<Longrightarrow> n < 10000 \<Longrightarrow>
   zfill 4 (dec n) = [digit (n div 1000), digit (n div 100 mod 10), digit (n div 10 mod 10), digit (n mod 10)]"
  by (simp add: zfill_def dec_four)

lemma strftime_valid:
  assumes "valid_time t"
  shows "strftime t =
     [CHR ''_'', digit (day t div 10), digit (day t mod 10),
      digit (month t div 10), digit (month t mod 10),
      digit (year t div 1000), digit (year t div 100 mod 10),
      digit (year t div 10 mod 10), digit (year t mod 10),
      CHR ''_'', digit (hour t div 10), digit (hour t mod 10),
      digit (minute t div 10), digit (minute t mod 10),
      digit (second t div 10), digit (second t mod 10)]"
  using assms unfolding strftime_def valid_time_def
  by (simp add: zfill2 zfill4)

section \<open>Claims about classification and normalisation\<close>


text \<open>
  C5. A file name that passes the full structural pattern also matches the pattern of
  the artist extraction, so \<open>get_artist\<close> does not raise its \<open>ValueError\<close> on it.
\<close>

theorem extraction_succeeds_after_fullmatch:
  assumes "re_fullmatch tablature_regex filename \<noteq> None"
  shows "re_match artist_regex filename \<noteq> None \<and> get_artist filename \<noteq> Inl ValueError"
proof -
  from assms have "tab_shape filename" using fullmatch_tablature by blast
  then have "first_segment filename \<noteq> None" by (rule tab_shape_segment)
  then show ?thesis by (auto simp: match_artist get_artist_segment)
qed

theorem extraction_succeeds_after_fullmatch_witness:
  "re_fullmatch tablature_regex ''Metallica - Enter Sandman.gp5'' \<noteq> None \<and>
   re_match artist_regex ''Metallica - Enter Sandman.gp5'' \<noteq> None \<and>
   get_artist ''Metallica - Enter Sandman.gp5'' \<noteq> Inl ValueError"
proof -
  have h: "re_fullmatch tablature_regex ''Metallica - Enter Sandman.gp5'' \<noteq> None"
    by code_simp
  show ?thesis using h extraction_succeeds_after_fullmatch [OF h] by simp
qed










section \<open>The file system operations\<close>

lemma lookup_log [simp]: "lookup (log e w) p = lookup w p"
  by (simp add: lookup_def log_def)

lemma fs_log [simp]: "fs (log e w) = fs w"
  by (simp add: log_def)

lemma events_log [simp]: "events (log e w) = events w @ [e]"
  by (simp add: log_def)

lemma readonly_log [simp]: "readonly (log e w) = readonly w"
  by (simp add: log_def)

lemma path_exists_log [simp]: "path_exists (log e w) p = path_exists w p"
  by (simp add: path_exists_def)

lemma grows_refl [simp]: "grows w w"
  by (simp add: grows_def)


lemma rename_fails: "rename src tgt w = Inl (e, w') \<Longrightarrow> w' = w \<and> (\<exists>n. e = OSError n)"
  by (auto simp: rename_def split: option.splits node.splits if_splits)

lemma rename_same: "rename src src w = Inr w' \<Longrightarrow> w' = w"
  by (auto simp: rename_def split: option.splits node.splits if_splits)

lemma rename_moves:
  assumes "rename src tgt w = Inr w'" "src \<noteq> tgt"
  shows "\<exists>c. lookup w src = Some (File c) \<and> lookup w' tgt = Some (File c) \<and>
           lookup w' src = None \<and> events w' = events w \<and> readonly w' = readonly w \<and>
           \<not> is_dir w tgt \<and>
           (\<forall>q. q \<noteq> src \<and> q \<noteq> tgt \<longrightarrow> lookup w' q = lookup w q)"
proof -
  from assms obtain c where c: "lookup w src = Some (File c)"
    and d: "\<not> is_dir w tgt"
    and w': "w' = w\<lparr>fs := AList.update tgt (File c) (AList.delete src (fs w))\<rparr>"
    by (auto simp: rename_def split: option.splits node.splits if_splits)
  from c have s: "parts src \<noteq> []" by (auto simp: lookup_def split: if_splits)
  from d have t: "parts tgt \<noteq> []" by (auto simp: is_dir_def lookup_def split: if_splits)
  show ?thesis
    using c d s t assms(2) unfolding w'
    by (auto simp: lookup_def update_conv' delete_conv')
qed










section \<open>What a move does\<close>







lemma move_file_frame:
  assumes "lookup w q = Some v" "q \<noteq> fp"
    "q \<noteq> joinpath d (stem (name fp) @ strftime now @ suffix (name fp))"
  shows "lookup (move_file now fp d w) q = Some v"
proof (cases "path_exists w (joinpath d (name fp))")
  case True
  let ?alt = "joinpath d (stem (name fp) @ strftime now @ suffix (name fp))"
  let ?w1 = "log (Collision (name fp) (name ?alt)) w"
  show ?thesis
  proof (cases "rename fp ?alt ?w1")
    case (Inl x)
    then show ?thesis using True assms rename_fails [of fp ?alt ?w1]
      by (cases x) (auto simp: move_file_def Let_def)
  next
    case (Inr w2)
    show ?thesis
    proof (cases "fp = ?alt")
      case e: True
      with Inr have "w2 = ?w1" using rename_same by metis
      with Inr True assms show ?thesis by (simp add: move_file_def Let_def)
    next
      case False
      from rename_moves [OF Inr False] assms have "lookup w2 q = Some v" by auto
      with Inr True show ?thesis by (simp add: move_file_def Let_def)
    qed
  qed
next
  case False
  let ?tp = "joinpath d (name fp)"
  from False assms have ne: "q \<noteq> ?tp" by (auto simp: path_exists_def)
  show ?thesis
  proof (cases "rename fp ?tp w")
    case (Inl x)
    then show ?thesis using False assms rename_fails [of fp ?tp w]
      by (cases x) (auto simp: move_file_def Let_def)
  next
    case (Inr w2)
    show ?thesis
    proof (cases "fp = ?tp")
      case True
      with Inr have "w2 = w" using rename_same by metis
      with Inr False assms show ?thesis by (simp add: move_file_def Let_def)
    next
      case ne': False
      from rename_moves [OF Inr ne'] assms ne have "lookup w2 q = Some v" by auto
      with Inr False show ?thesis by (simp add: move_file_def Let_def)
    qed
  qed
qed


lemma is_dir_log [simp]: "is_dir (log e w) q = is_dir w q"
  by (simp add: is_dir_def)


lemma move_file_free:
  assumes "\<not> path_exists w (joinpath d (name fp))"
    "last (events (move_file now fp d w)) = Moved x y" "fp \<noteq> joinpath d (name fp)"
  shows "\<exists>c. lookup w fp = Some (File c) \<and>
           lookup (move_file now fp d w) (joinpath d (name fp)) = Some (File c) \<and>
           lookup (move_file now fp d w) fp = None \<and>
           (\<forall>q. q \<noteq> fp \<and> q \<noteq> joinpath d (name fp) \<longrightarrow>
              lookup (move_file now fp d w) q = lookup w q)"
proof (cases "rename fp (joinpath d (name fp)) w")
  case (Inl z)
  with assms(1,2) show ?thesis by (cases z) (simp add: move_file_def Let_def)
next
  case (Inr w2)
  with assms(1) have "move_file now fp d w =
      log (Moved (name fp) (parent (joinpath d (name fp)))) w2"
    by (simp add: move_file_def Let_def)
  with rename_moves [OF Inr assms(3)] show ?thesis by auto
qed

lemma move_file_collides:
  assumes "path_exists w (joinpath d (name fp))"
    "last (events (move_file now fp d w)) = Moved x y"
    "fp \<noteq> joinpath d (stem (name fp) @ strftime now @ suffix (name fp))"
  shows "\<exists>c. lookup w fp = Some (File c) \<and>
           lookup (move_file now fp d w)
             (joinpath d (stem (name fp) @ strftime now @ suffix (name fp))) = Some (File c) \<and>
           lookup (move_file now fp d w) fp = None \<and>
           (\<forall>q. q \<noteq> fp \<and> q \<noteq> joinpath d (stem (name fp) @ strftime now @ suffix (name fp)) \<longrightarrow>
              lookup (move_file now fp d w) q = lookup w q)"
proof -
  let ?alt = "joinpath d (stem (name fp) @ strftime now @ suffix (name fp))"
  let ?w1 = "log (Collision (name fp) (name ?alt)) w"
  show ?thesis
  proof (cases "rename fp ?alt ?w1")
    case (Inl z)
    with assms(1,2) show ?thesis by (cases z) (simp add: move_file_def Let_def)
  next
    case (Inr w2)
    with assms(1) have "move_file now fp d w = log (Moved (name fp) (parent ?alt)) w2"
      by (simp add: move_file_def Let_def)
    with rename_moves [OF Inr assms(3)] show ?thesis by auto
  qed
qed

section \<open>What a run does with its files\<close>






section \<open>Claims about the placement and the run\<close>

text \<open>
  C1. The pre-check of the run tests whether the output directory is among the
  ancestors of the input directory, not whether it lies inside the input directory.
  With the output directory \<open>/in/out\<close> inside the input directory \<open>/in\<close>, and with
  the output directory equal to the input directory, the run is not aborted: it ends
  with status 0 and has moved the files. It is aborted, with status 1 and before any
  change, when the output directory is an ancestor of the input directory.
\<close>

theorem output_inside_input_is_not_rejected:
  "Path True [''in'', ''out''] \<notin> set (parents (Path True [''in''])) \<and>
   main (\<lambda>i. t0) (Path True [''in'']) (Path True [''in'', ''out'']) w0 =
     (0, \<lparr>fs =
            [(Path True [''in''], Dir),
             (Path True [''in'', ''readme.txt''], File ''notes''),
             (Path True [''in'', ''out''], Dir),
             (Path True [''in'', ''out'', ''Metallica''], Dir),
             (Path True [''in'', ''out'', ''Metallica'', ''Metallica - Enter Sandman.gp5''],
              File ''riff''),
             (Path True [''in'', ''out'', ''Who, The''], Dir),
             (Path True [''in'', ''out'', ''Who, The'', ''the who - baba oriley.txt''],
              File ''organ'')],
          readonly = [],
          events =
            [Moved ''Metallica - Enter Sandman.gp5'' (Path True [''in'', ''out'', ''Metallica'']),
             Moved ''the who - baba oriley.txt'' (Path True [''in'', ''out'', ''Who, The'']),
             Skipped ''readme.txt'', Complete]\<rparr>) \<and>
   fst (main (\<lambda>i. t0) (Path True [''in'']) (Path True [''in'']) w0) = 0 \<and>
   main (\<lambda>i. t0) (Path True [''in'']) (Path True []) w0 = (1, log Aborted w0)"
  by code_simp

text \<open>
  C3, as the specification states it, fails. The artist folder already holds
  \<open>''A - x.txt''\<close>; two distinct source files of that name are placed within the same
  second. Both moves succeed, both go to the same time-stamped name, and the second
  replaces the first: the content \<open>''one''\<close> is lost.
\<close>

theorem same_name_counterexample:
  "last (events (move_file t0 (Path True [''in1'', ''A - x.txt'']) (Path True [''out'', ''A'']) w_twins)) =
     Moved ''A - x.txt'' (Path True [''out'', ''A'']) \<and>
   last (events (move_file t0 (Path True [''in2'', ''A - x.txt'']) (Path True [''out'', ''A''])
       (move_file t0 (Path True [''in1'', ''A - x.txt'']) (Path True [''out'', ''A'']) w_twins))) =
     Moved ''A - x.txt'' (Path True [''out'', ''A'']) \<and>
   fs (move_file t0 (Path True [''in2'', ''A - x.txt'']) (Path True [''out'', ''A''])
       (move_file t0 (Path True [''in1'', ''A - x.txt'']) (Path True [''out'', ''A'']) w_twins)) =
     [(Path True [''out''], Dir),
      (Path True [''out'', ''A''], Dir),
      (Path True [''out'', ''A'', ''A - x.txt''], File ''zero''),
      (Path True [''out'', ''B''], Dir),
      (Path True [''in1''], Dir),
      (Path True [''in2''], Dir),
      (Path True [''out'', ''A'', ''A - x_02012024_030405.txt''], File ''two'')]"
  by code_simp

text \<open>
  C3, amended. Two distinct source files of the same name are placed into the same
  artist folder, one after the other. If the candidate path is free before the first
  placement, the time-stamped path is free as well, and both moves succeed, then both
  files exist afterwards, the first under its name and the second under the
  time-stamped name, and the sources are gone. In general a move changes nothing but
  its source and its final target: a file placed earlier is replaced only when it sits
  at the time-stamped path of a later collision.
\<close>

theorem same_name_files_both_kept:
  assumes "lookup w pa = Some (File ca)" and "lookup w pb = Some (File cb)" and "pa \<noteq> pb"
    and "name pa = n" and "name pb = n" and "valid_name n"
    and "\<not> path_exists w (joinpath d n)"
    and "\<not> path_exists w (joinpath d (stem n @ strftime tb @ suffix n))"
    and "last (events (move_file ta pa d w)) = Moved n d"
    and "last (events (move_file tb pb d (move_file ta pa d w))) = Moved n d"
  shows "lookup (move_file tb pb d (move_file ta pa d w)) (joinpath d n) = Some (File ca) \<and>
         lookup (move_file tb pb d (move_file ta pa d w))
           (joinpath d (stem n @ strftime tb @ suffix n)) = Some (File cb) \<and>
         lookup (move_file tb pb d (move_file ta pa d w)) pa = None \<and>
         lookup (move_file tb pb d (move_file ta pa d w)) pb = None \<and>
         (lookup w q = Some v \<and> q \<noteq> pa \<and> q \<noteq> joinpath d (stem n @ strftime ta @ suffix n) \<longrightarrow>
            lookup (move_file ta pa d w) q = Some v)"
proof -
  let ?cand = "joinpath d n"
  let ?alt = "joinpath d (stem n @ strftime tb @ suffix n)"
  let ?w1 = "move_file ta pa d w"
  let ?w2 = "move_file tb pb d ?w1"
  have va: "valid_name (stem n @ strftime tb @ suffix n)" using assms(6) by (rule stamped_valid)
  have ne: "?alt \<noteq> ?cand"
    using joinpath_inject [OF va assms(6)] stamped_differs by blast
  from assms(1,2,7,8) have d1: "pa \<noteq> ?cand" "pb \<noteq> ?cand" "pa \<noteq> ?alt" "pb \<noteq> ?alt"
    by (auto simp: path_exists_def)
  from assms(7,9) d1(1) move_file_free [of w d pa ta n d]
  have s1: "lookup ?w1 ?cand = Some (File ca)" "lookup ?w1 pa = None"
    "\<forall>q. q \<noteq> pa \<and> q \<noteq> ?cand \<longrightarrow> lookup ?w1 q = lookup w q"
    using assms(1,4) by auto
  from s1(1) have c1: "path_exists ?w1 (joinpath d (name pb))"
    using assms(5) by (simp add: path_exists_def)
  from s1(3) d1 assms(3) have b1: "lookup ?w1 pb = Some (File cb)"
    using assms(2) by simp
  from move_file_collides [OF c1, of tb n d] assms(5,10) d1(4)
  have s2: "lookup ?w2 ?alt = Some (File cb)" "lookup ?w2 pb = None"
    "\<forall>q. q \<noteq> pb \<and> q \<noteq> ?alt \<longrightarrow> lookup ?w2 q = lookup ?w1 q"
    using b1 by auto
  from s2(3) d1 ne s1 assms(3) have "lookup ?w2 ?cand = Some (File ca)" "lookup ?w2 pa = None"
    by auto
  moreover have "lookup w q = Some v \<and> q \<noteq> pa \<and>
      q \<noteq> joinpath d (stem n @ strftime ta @ suffix n) \<longrightarrow> lookup ?w1 q = Some v"
    using move_file_frame [of w q v pa d ta] assms(4) by auto
  ultimately show ?thesis using s2 by blast
qed

theorem same_name_files_both_kept_witness:
  "lookup (move_file t0 (Path True [''in2'', ''A - x.txt'']) (Path True [''out'', ''B''])
      (move_file t0 (Path True [''in1'', ''A - x.txt'']) (Path True [''out'', ''B'']) w_twins))
      (joinpath (Path True [''out'', ''B'']) ''A - x.txt'') = Some (File ''one'') \<and>
   lookup (move_file t0 (Path True [''in2'', ''A - x.txt'']) (Path True [''out'', ''B''])
      (move_file t0 (Path True [''in1'', ''A - x.txt'']) (Path True [''out'', ''B'']) w_twins))
      (joinpath (Path True [''out'', ''B''])
         (stem ''A - x.txt'' @ strftime t0 @ suffix ''A - x.txt'')) = Some (File ''two'')"
proof -
  let ?pa = "Path True [''in1'', ''A - x.txt'']"
  let ?pb = "Path True [''in2'', ''A - x.txt'']"
  let ?d = "Path True [''out'', ''B'']"
  have 1: "lookup w_twins ?pa = Some (File ''one'')" by code_simp
  have 2: "lookup w_twins ?pb = Some (File ''two'')" by code_simp
  have 3: "?pa \<noteq> ?pb" by simp
  have 4: "name ?pa = ''A - x.txt''" by code_simp
  have 5: "name ?pb = ''A - x.txt''" by code_simp
  have 6: "valid_name ''A - x.txt''" by code_simp
  have 7: "\<not> path_exists w_twins (joinpath ?d ''A - x.txt'')" by code_simp
  have 8: "\<not> path_exists w_twins
      (joinpath ?d (stem ''A - x.txt'' @ strftime t0 @ suffix ''A - x.txt''))" by code_simp
  have 9: "last (events (move_file t0 ?pa ?d w_twins)) = Moved ''A - x.txt'' ?d" by code_simp
  have 10: "last (events (move_file t0 ?pb ?d (move_file t0 ?pa ?d w_twins))) =
      Moved ''A - x.txt'' ?d" by code_simp
  from same_name_files_both_kept [OF 1 2 3 4 5 6 7 8 9 10] show ?thesis by blast
qed

text \<open>
  C7. When the candidate target path exists, \<open>move_file\<close> builds one alternative name,
  the stem of the file name, the time stamp and the extension, logs the collision and
  calls \<open>rename\<close> once, with that name: the outcome is a move to it or a failure that
  leaves the file system as it was, and nothing is tried after that. The time stamp of a
  clock reading is an underscore, two digits each for day and month, four for the year,
  an underscore, and two digits each for hour, minute and second.
\<close>

theorem collision_gets_one_timestamped_name:
  fixes now fp d w
  defines "alt \<equiv> joinpath d (stem (name fp) @ strftime now @ suffix (name fp))"
  assumes "path_exists w (joinpath d (name fp))"
  shows "move_file now fp d w =
           (case rename fp alt (log (Collision (name fp) (name alt)) w) of
              Inr w2 \<Rightarrow> log (Moved (name fp) (parent alt)) w2
            | Inl (e, w2) \<Rightarrow> log (MoveFailed (name fp) (parent alt) e) w2) \<and>
         ((events (move_file now fp d w) =
             events w @ [Collision (name fp) (name alt), Moved (name fp) (parent alt)] \<and>
           lookup (move_file now fp d w) alt = lookup w fp) \<or>
          (\<exists>e. events (move_file now fp d w) =
             events w @ [Collision (name fp) (name alt), MoveFailed (name fp) (parent alt) e] \<and>
             fs (move_file now fp d w) = fs w)) \<and>
         stem (name fp) @ suffix (name fp) = name fp \<and>
         (valid_name (name fp) \<longrightarrow>
            name alt = stem (name fp) @ strftime now @ suffix (name fp) \<and> parent alt = d \<and>
            alt \<noteq> joinpath d (name fp)) \<and>
         (valid_time now \<longrightarrow>
            strftime now =
              [CHR ''_'', digit (day now div 10), digit (day now mod 10),
               digit (month now div 10), digit (month now mod 10),
               digit (year now div 1000), digit (year now div 100 mod 10),
               digit (year now div 10 mod 10), digit (year now mod 10),
               CHR ''_'', digit (hour now div 10), digit (hour now mod 10),
               digit (minute now div 10), digit (minute now mod 10),
               digit (second now div 10), digit (second now mod 10)])"
proof -
  let ?w1 = "log (Collision (name fp) (name alt)) w"
  have eq: "move_file now fp d w =
           (case rename fp alt ?w1 of
              Inr w2 \<Rightarrow> log (Moved (name fp) (parent alt)) w2
            | Inl (e, w2) \<Rightarrow> log (MoveFailed (name fp) (parent alt) e) w2)"
    using assms(2) unfolding alt_def by (simp add: move_file_def Let_def)
  have out: "(events (move_file now fp d w) =
             events w @ [Collision (name fp) (name alt), Moved (name fp) (parent alt)] \<and>
           lookup (move_file now fp d w) alt = lookup w fp) \<or>
          (\<exists>e. events (move_file now fp d w) =
             events w @ [Collision (name fp) (name alt), MoveFailed (name fp) (parent alt) e] \<and>
             fs (move_file now fp d w) = fs w)"
  proof (cases "rename fp alt ?w1")
    case (Inl z)
    obtain e w2 where z: "z = (e, w2)" by (cases z)
    with Inl have "w2 = ?w1" using rename_fails by blast
    with Inl z eq show ?thesis by simp
  next
    case (Inr w2)
    show ?thesis
    proof (cases "fp = alt")
      case True
      with Inr have "w2 = ?w1" using rename_same by metis
      with Inr eq True show ?thesis by simp
    next
      case False
      from rename_moves [OF Inr False] Inr eq show ?thesis by auto
    qed
  qed
  have nm: "valid_name (name fp) \<longrightarrow>
            name alt = stem (name fp) @ strftime now @ suffix (name fp) \<and> parent alt = d \<and>
            alt \<noteq> joinpath d (name fp)"
  proof
    assume v: "valid_name (name fp)"
    then have va: "valid_name (stem (name fp) @ strftime now @ suffix (name fp))"
      by (rule stamped_valid)
    then show "name alt = stem (name fp) @ strftime now @ suffix (name fp) \<and> parent alt = d \<and>
            alt \<noteq> joinpath d (name fp)"
      using joinpath_inject [OF va v] stamped_differs by (simp add: alt_def)
  qed
  from eq out nm show ?thesis using stem_suffix strftime_valid by blast
qed

theorem collision_gets_one_timestamped_name_witness:
  "path_exists w_twins (joinpath (Path True [''out'', ''A'']) (name (Path True [''in1'', ''A - x.txt'']))) \<and>
   valid_name (name (Path True [''in1'', ''A - x.txt''])) \<and> valid_time t0 \<and>
   name (joinpath (Path True [''out'', ''A''])
      (stem (name (Path True [''in1'', ''A - x.txt''])) @ strftime t0 @
       suffix (name (Path True [''in1'', ''A - x.txt''])))) = ''A - x_02012024_030405.txt'' \<and>
   events (move_file t0 (Path True [''in1'', ''A - x.txt'']) (Path True [''out'', ''A'']) w_twins) =
     [Collision ''A - x.txt'' ''A - x_02012024_030405.txt'',
      Moved ''A - x.txt'' (Path True [''out'', ''A''])]"
proof -
  let ?fp = "Path True [''in1'', ''A - x.txt'']"
  let ?d = "Path True [''out'', ''A'']"
  let ?alt = "joinpath ?d (stem (name ?fp) @ strftime t0 @ suffix (name ?fp))"
  have 1: "path_exists w_twins (joinpath ?d (name ?fp))" by code_simp
  have 2: "valid_name (name ?fp)" by code_simp
  have 3: "valid_time t0" by code_simp
  have 4: "stem (name ?fp) @ strftime t0 @ suffix (name ?fp) = ''A - x_02012024_030405.txt''"
    by code_simp
  have 5: "events (move_file t0 ?fp ?d w_twins) =
     [Collision ''A - x.txt'' ''A - x_02012024_030405.txt'', Moved ''A - x.txt'' ?d]"
    by code_simp
  from collision_gets_one_timestamped_name [OF 1, of t0] 2
  have "name ?alt = stem (name ?fp) @ strftime t0 @ suffix (name ?fp)" by blast
  then have 6: "name ?alt = ''A - x_02012024_030405.txt''" using 4 by (rule trans)
  from 1 2 3 5 6 show ?thesis by blast
qed













end
